theory Spec2Isabelle
  imports Complex_Main
begin

section \<open>Data model\<close>

text \<open>
  The component of \<^verbatim>\<open>NodeDocumentationModal.tsx\<close> is a function of the schema collection,
  the query string and what the search index returns. JavaScript strings are modelled as
  \<^typ>\<open>string\<close>, one \<^typ>\<open>char\<close> per code unit below 256 (the Latin-1 range); numbers (the
  scores) are modelled as \<^typ>\<open>real\<close>, the finite values that the code only compares.
\<close>

type_synonym SchemaId = string

text \<open>An input or an output of a schema: \<^verbatim>\<open>label: string; description?: string\<close>.\<close>

record Input =
  label :: string
  description :: "string option"

text \<open>An entry of \<^verbatim>\<open>defaultNodes\<close>: the helper schema a schema owns.\<close>

record DefaultNode =
  schemaId :: SchemaId

record NodeSchema =
  schemaId :: SchemaId
  name :: string
  category :: string
  subcategory :: string
  description :: string
  inputs :: "Input list"
  outputs :: "Input list"
  defaultNodes :: "DefaultNode list option"

text \<open>A result of \<^verbatim>\<open>searchIndex.search\<close>: the fields of it that the component reads.\<close>

record SearchResult =
  id' :: SchemaId
  score :: real
  terms :: "string list"

section \<open>JavaScript \<^verbatim>\<open>Map\<close> and \<^verbatim>\<open>Set\<close>\<close>

text \<open>
  A \<^verbatim>\<open>Map\<close> iterates in insertion order, and \<^verbatim>\<open>set\<close> on a key that is present keeps the
  key's position: the map is the list of its entries in iteration order.
\<close>

type_synonym ('k, 'v) Map = "('k \<times> 'v) list"

fun Map_set :: "('k, 'v) Map \<Rightarrow> 'k \<Rightarrow> 'v \<Rightarrow> ('k, 'v) Map" where
  "Map_set [] k v = [(k, v)]"
| "Map_set ((k', v') # m) k v = (if k' = k then (k, v) # m else (k', v') # Map_set m k v)"

fun Map_get :: "('k, 'v) Map \<Rightarrow> 'k \<Rightarrow> 'v option" where
  "Map_get [] k = None"
| "Map_get ((k', v') # m) k = (if k' = k then Some v' else Map_get m k)"

definition Map_has :: "('k, 'v) Map \<Rightarrow> 'k \<Rightarrow> bool" where
  "Map_has m k = (Map_get m k \<noteq> None)"

definition Map_keys :: "('k, 'v) Map \<Rightarrow> 'k list" where
  "Map_keys m = map fst m"

definition Map_values :: "('k, 'v) Map \<Rightarrow> 'v list" where
  "Map_values m = map snd m"

text \<open>A \<^verbatim>\<open>Set\<close> iterates in insertion order; adding an element that is present changes nothing.\<close>

definition Set_add :: "'a list \<Rightarrow> 'a \<Rightarrow> 'a list" where
  "Set_add s x = (if x \<in> set s then s else s @ [x])"

definition new_Set :: "'a list \<Rightarrow> 'a list" where
  "new_Set xs = foldl Set_add [] xs"

section \<open>JavaScript strings\<close>

text \<open>
  \<^verbatim>\<open>String.prototype.trim\<close> removes white space and line terminators at both ends. Below
  code unit 256 these are TAB, LF, VT, FF, CR, SP and NBSP.
\<close>

definition isWhiteSpace :: "char \<Rightarrow> bool" where
  "isWhiteSpace c = (c \<in> set [CHR 0x09, CHR 0x0A, CHR 0x0B, CHR 0x0C, CHR 0x0D, CHR 0x20, CHR 0xA0])"

definition trim :: "string \<Rightarrow> string" where
  "trim s = rev (dropWhile isWhiteSpace (rev (dropWhile isWhiteSpace s)))"

text \<open>
  \<^verbatim>\<open>String.prototype.toLowerCase\<close> below code unit 256: the letters A to Z and the
  Latin-1 capitals U+00C0 to U+00DE (but the multiplication sign U+00D7) move up by 32.
\<close>

definition isUpperCase :: "char \<Rightarrow> bool" where
  "isUpperCase c =
     (let n = of_char c :: nat
      in (0x41 \<le> n \<and> n \<le> 0x5A) \<or> (0xC0 \<le> n \<and> n \<le> 0xDE \<and> n \<noteq> 0xD7))"

definition toLowerCase_char :: "char \<Rightarrow> char" where
  "toLowerCase_char c = (if isUpperCase c then char_of (of_char c + (32 :: nat)) else c)"

definition toLowerCase :: "string \<Rightarrow> string" where
  "toLowerCase s = map toLowerCase_char s"

text \<open>
  \<^verbatim>\<open>Array.prototype.join\<close> on an array of strings; the separator stands between
  neighbours only.
\<close>

fun join :: "'a list \<Rightarrow> 'a list list \<Rightarrow> 'a list" where
  "join sep [] = []"
| "join sep [x] = x"
| "join sep (x # y # zs) = x @ sep @ join sep (y # zs)"

section \<open>The search index\<close>

text \<open>The keys of \<^verbatim>\<open>NodeSchema\<close> that the index reads: its \<^verbatim>\<open>idField\<close> and its \<^verbatim>\<open>fields\<close>.\<close>

datatype fieldName =
  F_schemaId | F_category | F_description | F_name | F_subcategory | F_inputs | F_outputs

definition idField :: fieldName where
  "idField = F_schemaId"

definition fields' :: "fieldName list" where
  "fields' = [F_category, F_description, F_name, F_subcategory, F_inputs, F_outputs]"

text \<open>The template literal \<^verbatim>\<open>`${i.label} ${i.description ?? ''}`\<close>.\<close>

definition input_text :: "Input \<Rightarrow> string" where
  "input_text i = label i @ '' '' @ (case Input.description i of None \<Rightarrow> [] | Some d \<Rightarrow> d)"

text \<open>
  \<^verbatim>\<open>extractField\<close>: the synthesized text for \<^verbatim>\<open>inputs\<close> and \<^verbatim>\<open>outputs\<close>, and
  \<^verbatim>\<open>String(document[fieldName])\<close>, the string itself, for the fields that are strings.
\<close>

fun extractField :: "NodeSchema \<Rightarrow> fieldName \<Rightarrow> string" where
  "extractField document F_inputs = join [CHR 0x0A, CHR 0x0A] (map input_text (inputs document))"
| "extractField document F_outputs = join [CHR 0x0A, CHR 0x0A] (map input_text (outputs document))"
| "extractField document F_schemaId = NodeSchema.schemaId document"
| "extractField document F_category = category document"
| "extractField document F_description = NodeSchema.description document"
| "extractField document F_name = name document"
| "extractField document F_subcategory = subcategory document"

text \<open>
  What \<^verbatim>\<open>index.addAll(schemata)\<close> hands to the index: for each schema, in order, its
  identifier and the text of each field, both read through \<^verbatim>\<open>extractField\<close>.
\<close>

definition createSearchIndex :: "NodeSchema list \<Rightarrow> (SchemaId \<times> (fieldName \<times> string) list) list" where
  "createSearchIndex schemata =
     map (\<lambda>document.
            (extractField document idField, map (\<lambda>f. (f, extractField document f)) fields'))
         schemata"

section \<open>The helper map\<close>

text \<open>
  The two loops over the schemas and over the \<^verbatim>\<open>defaultNodes\<close> of each
  (\<^verbatim>\<open>schema.defaultNodes ?? []\<close>): every helper is mapped to the schema that owns it.
\<close>

definition helperNodeMapping :: "NodeSchema list \<Rightarrow> (SchemaId, SchemaId) Map" where
  "helperNodeMapping schemata =
     foldl (\<lambda>mapping schema.
              foldl (\<lambda>mapping helper.
                       Map_set mapping (DefaultNode.schemaId helper) (NodeSchema.schemaId schema))
                    mapping
                    (case defaultNodes schema of None \<Rightarrow> [] | Some ds \<Rightarrow> ds))
           [] schemata"

section \<open>Search and promotion\<close>

text \<open>
  One round of the loop over the results: the result's own entry, then the entry of the
  parent of a helper. \<^verbatim>\<open>parent && !scores.has(parent)\<close> is false for a parent that is
  absent and for one that is the empty string. The identifier of a result is a string, on
  which \<^verbatim>\<open>String\<close> is the identity.
\<close>

definition promote ::
  "(SchemaId, SchemaId) Map \<Rightarrow> (SchemaId, real) Map \<Rightarrow> SchemaId \<Rightarrow> real \<Rightarrow> (SchemaId, real) Map" where
  "promote helperMap scores i sc =
     (case Map_get helperMap i of
        None \<Rightarrow> scores
      | Some parent \<Rightarrow>
          if parent \<noteq> [] \<and> \<not> Map_has scores parent then Map_set scores parent sc else scores)"

definition scores_step ::
  "(SchemaId, SchemaId) Map \<Rightarrow> (SchemaId, real) Map \<Rightarrow> SearchResult \<Rightarrow> (SchemaId, real) Map" where
  "scores_step helperMap scores result =
     promote helperMap (Map_set scores (id' result) (score result)) (id' result) (score result)"

definition scores_of :: "(SchemaId, SchemaId) Map \<Rightarrow> SearchResult list \<Rightarrow> (SchemaId, real) Map" where
  "scores_of helperMap searchResults = foldl (scores_step helperMap) [] searchResults"

definition terms_of :: "SearchResult list \<Rightarrow> string list" where
  "terms_of searchResults = new_Set (map toLowerCase (concat (map terms searchResults)))"

record SearchState =
  searchScores :: "(SchemaId, real) Map option"
  searchTerms :: "string list option"

text \<open>
  The memo of the search. \<^verbatim>\<open>search\<close> is \<^verbatim>\<open>searchIndex.search\<close> with its fixed options,
  a function of the library.
\<close>

definition useSearch ::
  "(string \<Rightarrow> SearchResult list) \<Rightarrow> (SchemaId, SchemaId) Map \<Rightarrow> string \<Rightarrow> SearchState" where
  "useSearch search helperMap searchQuery =
     (if trim searchQuery = [] then \<lparr>searchScores = None, searchTerms = None\<rparr>
      else
        let searchResults = search searchQuery
        in \<lparr>searchScores = Some (scores_of helperMap searchResults),
            searchTerms = Some (terms_of searchResults)\<rparr>)"

section \<open>Auto-select\<close>

text \<open>
  The effect that follows a search: the argument of the one call of
  \<^verbatim>\<open>openNodeDocumentation\<close>, or \<open>None\<close> when the effect does not call it. The body
  runs on a score map that is present and not empty; \<^verbatim>\<open>Math.max\<close> of its values is the
  highest score, \<^verbatim>\<open>find\<close> gives the first entry with it, \<^verbatim>\<open>if (highestScoreSchemaId)\<close>
  is false for the empty string, and \<^verbatim>\<open>??\<close> keeps the identifier that has no parent.
\<close>

definition autoSelect ::
  "(SchemaId, real) Map option \<Rightarrow> (SchemaId, SchemaId) Map \<Rightarrow> SchemaId option" where
  "autoSelect scores helperMap =
     (case scores of
        None \<Rightarrow> None
      | Some [] \<Rightarrow> None
      | Some (e # es) \<Rightarrow>
          let highestScore = foldl max (snd e) (Map_values es)
          in (case find (\<lambda>(k, sc). sc = highestScore) (e # es) of
                None \<Rightarrow> None
              | Some (highestScoreSchemaId, sc) \<Rightarrow>
                  if highestScoreSchemaId \<noteq> [] then
                    Some (case Map_get helperMap highestScoreSchemaId of
                            None \<Rightarrow> highestScoreSchemaId
                          | Some parent \<Rightarrow> parent)
                  else None))"

text \<open>The effect on a state, for any action \<^verbatim>\<open>openNodeDocumentation\<close> of the context.\<close>

definition autoSelect_effect ::
  "(SchemaId \<Rightarrow> 'st \<Rightarrow> 'st) \<Rightarrow> (SchemaId, real) Map option \<Rightarrow> (SchemaId, SchemaId) Map \<Rightarrow> 'st \<Rightarrow> 'st" where
  "autoSelect_effect openNodeDocumentation scores helperMap st =
     (case autoSelect scores helperMap of
        None \<Rightarrow> st
      | Some i \<Rightarrow> openNodeDocumentation i st)"

section \<open>Regular expressions\<close>

text \<open>
  The syntax characters of an ECMAScript pattern:
  \<^verbatim>\<open>^ $ \ . * + ? ( ) [ ] { } |\<close>.
\<close>

definition isSyntaxCharacter :: "char \<Rightarrow> bool" where
  "isSyntaxCharacter c =
     (c \<in> set [CHR ''^'', CHR ''$'', CHR 0x5C, CHR ''.'', CHR ''*'', CHR ''+'', CHR ''?'',
                CHR ''('', CHR '')'', CHR ''['', CHR '']'', CHR ''{'', CHR ''}'', CHR ''|''])"

text \<open>
  Modelled from the spec: \<^verbatim>\<open>escapeRegExp\<close> of \<^verbatim>\<open>common/util\<close> is imported and not part of
  the file; the spec calls it a text-escaping utility for building literal-match patterns,
  with each term escaped for literal matching. It is modelled as putting a backslash
  before every syntax character.
\<close>

definition escapeRegExp :: "string \<Rightarrow> string" where
  "escapeRegExp s = concat (map (\<lambda>c. if isSyntaxCharacter c then [CHR 0x5C, c] else [c]) s)"

text \<open>
  The constructor \<^verbatim>\<open>RegExp(pattern, 'ig')\<close> is modelled on the fragment of the pattern
  language that the component writes: pattern characters, a backslash before a syntax
  character, the class escape \<^verbatim>\<open>\w\<close>, alternation, the group \<^verbatim>\<open>(?: )\<close> and the negative
  lookahead \<^verbatim>\<open>(?! )\<close>. A pattern that is malformed inside the fragment is a
  \<open>SyntaxError\<close>, as the constructor throws; a pattern that leaves the fragment is
  \<open>Unmodelled\<close>.
\<close>

datatype error = SyntaxError | Unmodelled

datatype token = TChar char | TWord | TGroup | TNegLookahead | TClose | TBar

fun tokenize :: "string \<Rightarrow> error + token list" where
  "tokenize [] = Inr []"
| "tokenize (c # cs) =
     (if c = CHR 0x5C then
        (case cs of
           [] \<Rightarrow> Inl SyntaxError
         | d # ds \<Rightarrow>
             if d = CHR ''w'' then map_sum id (Cons TWord) (tokenize ds)
             else if isSyntaxCharacter d then map_sum id (Cons (TChar d)) (tokenize ds)
             else Inl Unmodelled)
      else if c = CHR ''('' then
        (case cs of
           q # k # ds \<Rightarrow>
             if q = CHR ''?'' \<and> k = CHR '':'' then map_sum id (Cons TGroup) (tokenize ds)
             else if q = CHR ''?'' \<and> k = CHR ''!'' then map_sum id (Cons TNegLookahead) (tokenize ds)
             else Inl Unmodelled
         | _ \<Rightarrow> Inl Unmodelled)
      else if c = CHR '')'' then map_sum id (Cons TClose) (tokenize cs)
      else if c = CHR ''|'' then map_sum id (Cons TBar) (tokenize cs)
      else if isSyntaxCharacter c then Inl Unmodelled
      else map_sum id (Cons (TChar c)) (tokenize cs))"

datatype regex = Lit char | WordChar | Seq "regex list" | Alt "regex list" | NegLookahead regex

text \<open>
  The parser reads the tokens from left to right. \<open>alts\<close> are the finished alternatives
  of the disjunction being read and \<open>cur\<close> the terms of its current alternative; the stack
  holds the same for every enclosing group, with the kind of the group.
\<close>

fun parse ::
  "(bool \<times> regex list \<times> regex list) list \<Rightarrow> regex list \<Rightarrow> regex list \<Rightarrow> token list \<Rightarrow> error + regex" where
  "parse stack alts cur [] =
     (if stack = [] then Inr (Alt (alts @ [Seq cur])) else Inl SyntaxError)"
| "parse stack alts cur (TChar c # ts) = parse stack alts (cur @ [Lit c]) ts"
| "parse stack alts cur (TWord # ts) = parse stack alts (cur @ [WordChar]) ts"
| "parse stack alts cur (TBar # ts) = parse stack (alts @ [Seq cur]) [] ts"
| "parse stack alts cur (TGroup # ts) = parse ((False, alts, cur) # stack) [] [] ts"
| "parse stack alts cur (TNegLookahead # ts) = parse ((True, alts, cur) # stack) [] [] ts"
| "parse stack alts cur (TClose # ts) =
     (case stack of
        [] \<Rightarrow> Inl SyntaxError
      | (lookahead, alts', cur') # stack' \<Rightarrow>
          parse stack' alts'
            (cur' @ [if lookahead then NegLookahead (Alt (alts @ [Seq cur]))
                     else Alt (alts @ [Seq cur])])
            ts)"

text \<open>\<^verbatim>\<open>\w\<close> without the unicode flag: the digits, the letters A to Z and a to z, and \<^verbatim>\<open>_\<close>.\<close>

definition isWordChar :: "char \<Rightarrow> bool" where
  "isWordChar c =
     (let n = of_char c :: nat
      in (0x30 \<le> n \<and> n \<le> 0x39) \<or> (0x41 \<le> n \<and> n \<le> 0x5A) \<or> n = 0x5F \<or>
         (0x61 \<le> n \<and> n \<le> 0x7A))"

text \<open>
  \<^verbatim>\<open>Canonicalize\<close> of the specification of the language, without the unicode flag: with
  \<^verbatim>\<open>ignoreCase\<close> a code unit is compared through its upper case, when that is one code
  unit. Below code unit 256 the small letters move down by 32, but U+00B5 and U+00FF have
  their upper case above 255 and U+00DF has none of one code unit.
\<close>

definition Canonicalize :: "bool \<Rightarrow> char \<Rightarrow> nat" where
  "Canonicalize ic c =
     (let n = of_char c :: nat
      in if \<not> ic then n
         else if (0x61 \<le> n \<and> n \<le> 0x7A) \<or> (0xE0 \<le> n \<and> n \<le> 0xFE \<and> n \<noteq> 0xF7) then n - 32
         else if n = 0xB5 then 0x39C
         else if n = 0xFF then 0x178
         else n)"

text \<open>
  The backtracking matcher: \<open>ends ic s r i\<close> lists, in the order in which the matcher
  tries them, the positions where a match of \<open>r\<close> that starts at position \<open>i\<close> of \<open>s\<close>
  can end.
\<close>

fun ends :: "bool \<Rightarrow> string \<Rightarrow> regex \<Rightarrow> nat \<Rightarrow> nat list"
  and ends_seq :: "bool \<Rightarrow> string \<Rightarrow> regex list \<Rightarrow> nat \<Rightarrow> nat list"
  and ends_alt :: "bool \<Rightarrow> string \<Rightarrow> regex list \<Rightarrow> nat \<Rightarrow> nat list" where
  "ends ic s (Lit c) i =
     (if i < length s \<and> Canonicalize ic (s ! i) = Canonicalize ic c then [Suc i] else [])"
| "ends ic s WordChar i = (if i < length s \<and> isWordChar (s ! i) then [Suc i] else [])"
| "ends ic s (Seq rs) i = ends_seq ic s rs i"
| "ends ic s (Alt rs) i = ends_alt ic s rs i"
| "ends ic s (NegLookahead r) i = (if ends ic s r i = [] then [i] else [])"
| "ends_seq ic s [] i = [i]"
| "ends_seq ic s (r # rs) i = concat (map (ends_seq ic s rs) (ends ic s r i))"
| "ends_alt ic s [] i = []"
| "ends_alt ic s (r # rs) i = ends ic s r i @ ends_alt ic s rs i"

record RegExp =
  source :: string
  ignoreCase :: bool
  global :: bool
  pattern :: regex

definition new_RegExp_ig :: "string \<Rightarrow> error + RegExp" where
  "new_RegExp_ig src =
     (case tokenize src of
        Inl e \<Rightarrow> Inl e
      | Inr ts \<Rightarrow>
          (case parse [] [] [] ts of
             Inl e \<Rightarrow> Inl e
           | Inr r \<Rightarrow> Inr \<lparr>source = src, ignoreCase = True, global = True, pattern = r\<rparr>))"

text \<open>The match of the expression that starts at position \<open>i\<close>: where it ends.\<close>

definition match_at :: "RegExp \<Rightarrow> string \<Rightarrow> nat \<Rightarrow> nat option" where
  "match_at re s i =
     (case ends (ignoreCase re) s (pattern re) i of [] \<Rightarrow> None | e # es \<Rightarrow> Some e)"

text \<open>
  The first match in \<open>s\<close>, searched from position 0 as \<^verbatim>\<open>exec\<close> does from
  \<^verbatim>\<open>lastIndex\<close>: its start and its end, or \<open>None\<close> when there is no match.
\<close>

definition exec :: "RegExp \<Rightarrow> string \<Rightarrow> (nat \<times> nat) option" where
  "exec re s =
     (case find (\<lambda>i. match_at re s i \<noteq> None) [0 ..< Suc (length s)] of
        None \<Rightarrow> None
      | Some i \<Rightarrow> map_option (Pair i) (match_at re s i))"

section \<open>Highlight pattern\<close>

text \<open>
  The memo of the highlight pattern: \<open>Inr None\<close> is \<^verbatim>\<open>undefined\<close>. A \<^verbatim>\<open>Set\<close> is an
  object, so \<^verbatim>\<open>!searchTerms\<close> holds of \<^verbatim>\<open>undefined\<close> only, not of the empty set.
\<close>

definition highlightRegex :: "string list option \<Rightarrow> error + RegExp option" where
  "highlightRegex terms' =
     (case terms' of
        None \<Rightarrow> Inr None
      | Some ts \<Rightarrow>
          map_sum id Some
            (new_RegExp_ig
               (''(?:'' @ join ''|'' (map escapeRegExp ts) @ '')(?!'' @ [CHR 0x5C] @ ''w)'')))"

text \<open>
  The alternatives that the pattern of term set \<open>ts\<close> holds: \<^verbatim>\<open>join\<close> of no term is the
  empty string, and the group \<^verbatim>\<open>(?:)\<close> holds the one empty alternative.
\<close>

definition alternatives :: "string list \<Rightarrow> string list" where
  "alternatives ts = (if ts = [] then [[]] else ts)"

text \<open>
  \<open>literal_at ic s i t\<close>: the characters of \<open>t\<close> stand in \<open>s\<close> from position \<open>i\<close> on, each
  taken for itself, and up to letter case when \<open>ic\<close> holds.
\<close>

fun literal_at :: "bool \<Rightarrow> string \<Rightarrow> nat \<Rightarrow> string \<Rightarrow> bool" where
  "literal_at ic s i [] = True"
| "literal_at ic s i (c # t) =
     (i < length s \<and> Canonicalize ic (s ! i) = Canonicalize ic c \<and> literal_at ic s (Suc i) t)"

section \<open>The indexed text in the words of the specification\<close>

text \<open>
  The specification's text of an entry is the entry's label followed by its description,
  the empty string when there is none; the text of a field joins the texts of its entries
  with blank lines.
\<close>

definition spec_entry_text :: "Input \<Rightarrow> string" where
  "spec_entry_text i = label i @ (case Input.description i of None \<Rightarrow> [] | Some d \<Rightarrow> d)"

definition spec_indexed_text :: "Input list \<Rightarrow> string" where
  "spec_indexed_text entries = join [CHR 0x0A, CHR 0x0A] (map spec_entry_text entries)"

section \<open>Properties\<close>

lemma Map_get_set: "Map_get (Map_set m k v) k' = (if k' = k then Some v else Map_get m k')"
  by (induction m) auto

lemma Map_has_set: "Map_has (Map_set m k v) k' = (k' = k \<or> Map_has m k')"
  by (simp add: Map_has_def Map_get_set)

lemma Map_keys_set: "set (Map_keys (Map_set m k v)) = insert k (set (Map_keys m))"
proof (induction m)
  case Nil
  show ?case by (simp add: Map_keys_def)
next
  case (Cons e m)
  obtain k' v' where e: "e = (k', v')" by (cases e)
  from Cons show ?case unfolding e Map_keys_def by (cases "k' = k") auto
qed

lemma Map_values_set: "set (Map_values (Map_set m k v)) \<subseteq> insert v (set (Map_values m))"
proof (induction m)
  case Nil
  show ?case by (simp add: Map_values_def)
next
  case (Cons e m)
  obtain k' v' where e: "e = (k', v')" by (cases e)
  from Cons show ?case unfolding e Map_values_def by (cases "k' = k") auto
qed

lemma Map_get_values: "Map_get m k = Some v \<Longrightarrow> v \<in> set (Map_values m)"
  by (induction m) (auto simp: Map_values_def split: if_splits)

lemma promote_keeps: "Map_has scores k \<Longrightarrow> Map_get (promote hm scores i sc) k = Map_get scores k"
  by (auto simp: promote_def Map_get_set split: option.splits)

lemma scores_step_own: "Map_get (scores_step hm scores r) (id' r) = Some (score r)"
  by (simp add: scores_step_def promote_keeps Map_has_set Map_get_set)

lemma scores_step_other:
  "Map_has scores k \<Longrightarrow> k \<noteq> id' r \<Longrightarrow> Map_get (scores_step hm scores r) k = Map_get scores k"
  by (simp add: scores_step_def promote_keeps Map_has_set Map_get_set)

lemma scores_of_snoc: "scores_of hm (rs @ [r]) = scores_step hm (scores_of hm rs) r"
  by (simp add: scores_of_def)

lemma scores_of_own:
  "distinct (map id' rs) \<Longrightarrow> r \<in> set rs \<Longrightarrow> Map_get (scores_of hm rs) (id' r) = Some (score r)"
proof (induction rs rule: rev_induct)
  case Nil
  then show ?case by simp
next
  case (snoc x xs)
  show ?case
  proof (cases "r = x")
    case True
    then show ?thesis by (simp add: scores_of_snoc scores_step_own)
  next
    case False
    with snoc.prems have rin: "r \<in> set xs" and ne: "id' r \<noteq> id' x" and d: "distinct (map id' xs)"
      by (auto simp: image_iff)
    from snoc.IH [OF d rin] have "Map_has (scores_of hm xs) (id' r)"
      by (simp add: Map_has_def)
    with ne snoc.IH [OF d rin] show ?thesis
      by (simp add: scores_of_snoc scores_step_other)
  qed
qed

lemma foldl_max_Max: "foldl max (x::real) xs = Max (set (x # xs))"
proof -
  have "(\<lambda>a b. max b a) = (max :: real \<Rightarrow> real \<Rightarrow> real)"
    by (intro ext) (rule max.commute)
  then have "foldl max x xs = fold max xs x"
    by (simp only: foldl_conv_fold)
  then show ?thesis
    by (simp only: Max.set_eq_fold)
qed

lemma trim_empty_iff: "(trim s = []) = (\<forall>c\<in>set s. isWhiteSpace c)"
proof
  assume "trim s = []"
  then have "dropWhile isWhiteSpace (rev (dropWhile isWhiteSpace s)) = []"
    by (simp add: trim_def)
  then have all: "\<forall>c\<in>set (dropWhile isWhiteSpace s). isWhiteSpace c"
    by simp
  have "dropWhile isWhiteSpace s = []"
  proof (rule ccontr)
    assume ne: "dropWhile isWhiteSpace s \<noteq> []"
    then have "\<not> isWhiteSpace (hd (dropWhile isWhiteSpace s))"
      by (rule hd_dropWhile)
    moreover from ne have "hd (dropWhile isWhiteSpace s) \<in> set (dropWhile isWhiteSpace s)"
      by simp
    ultimately show False using all by blast
  qed
  then show "\<forall>c\<in>set s. isWhiteSpace c"
    by simp
next
  assume "\<forall>c\<in>set s. isWhiteSpace c"
  then show "trim s = []"
    by (auto simp: trim_def dest: set_dropWhileD)
qed

lemma set_foldl_Set_add: "set (foldl Set_add s xs) = set s \<union> set xs"
  by (induction xs arbitrary: s) (auto simp: Set_add_def)

lemma distinct_foldl_Set_add: "distinct s \<Longrightarrow> distinct (foldl Set_add s xs)"
  by (induction xs arbitrary: s) (auto simp: Set_add_def)

lemma set_new_Set: "set (new_Set xs) = set xs"
  by (simp add: new_Set_def set_foldl_Set_add)

lemma distinct_new_Set: "distinct (new_Set xs)"
  by (simp add: new_Set_def distinct_foldl_Set_add)

lemma toLowerCase_char_not_upper: "\<not> isUpperCase (toLowerCase_char c)"
proof (cases "isUpperCase c")
  case False
  then show ?thesis by (simp add: toLowerCase_char_def)
next
  case True
  have "of_char (char_of (of_char c + (32::nat))) = (of_char c + (32::nat)) mod 256"
    by (simp only: of_char_of)
  moreover from True have "(of_char c + (32::nat)) mod 256 = of_char c + 32"
    by (auto simp: isUpperCase_def Let_def)
  ultimately show ?thesis using True
    by (auto simp: toLowerCase_char_def isUpperCase_def Let_def)
qed

lemma toLowerCase_idem: "toLowerCase (toLowerCase t) = toLowerCase t"
  using toLowerCase_char_not_upper
  by (simp add: toLowerCase_def toLowerCase_char_def)

lemma toLowerCase_no_upper: "c \<in> set (toLowerCase t) \<Longrightarrow> \<not> isUpperCase c"
  by (auto simp: toLowerCase_def toLowerCase_char_not_upper)

lemma Max_values_in:
  fixes scores :: "(SchemaId, real) Map"
  assumes "scores \<noteq> []"
  shows "\<exists>e\<in>set scores. snd e = Max (set (Map_values scores))"
proof -
  have "finite (set (Map_values scores))" by simp
  moreover from assms have "set (Map_values scores) \<noteq> {}" by (simp add: Map_values_def)
  ultimately have "Max (set (Map_values scores)) \<in> set (Map_values scores)"
    by (rule Max_in)
  then show ?thesis
    unfolding Map_values_def set_map by (metis imageE)
qed

lemma find_first:
  assumes "e \<in> set xs" and "P e"
  shows "\<exists>i<length xs. find P xs = Some (xs ! i) \<and> P (xs ! i) \<and> (\<forall>j<i. \<not> P (xs ! j))"
proof -
  from assms have "find P xs \<noteq> None"
    unfolding find_None_iff by blast
  then obtain x where x: "find P xs = Some x"
    by blast
  then obtain i where "i < length xs" "P (xs ! i)" "x = xs ! i" "\<forall>j<i. \<not> P (xs ! j)"
    unfolding find_Some_iff by blast
  with x show ?thesis by blast
qed

lemma find_highest:
  fixes scores :: "(SchemaId, real) Map"
  assumes "scores \<noteq> []"
  shows "\<exists>i<length scores.
           find (\<lambda>e. snd e = Max (set (Map_values scores))) scores = Some (scores ! i) \<and>
           snd (scores ! i) = Max (set (Map_values scores)) \<and>
           (\<forall>j<i. snd (scores ! j) \<noteq> Max (set (Map_values scores)))"
proof -
  from Max_values_in [OF assms] obtain e where "e \<in> set scores" "snd e = Max (set (Map_values scores))"
    by blast
  then show ?thesis
    by (rule find_first)
qed

lemma case_prod_snd: "(\<lambda>(k, sc). sc = M) = (\<lambda>e. snd e = M)"
  by (simp add: fun_eq_iff)

lemma autoSelect_Some:
  assumes "scores \<noteq> []"
  shows "autoSelect (Some scores) helperMap =
           (case find (\<lambda>e. snd e = Max (set (Map_values scores))) scores of
              None \<Rightarrow> None
            | Some e \<Rightarrow>
                if fst e \<noteq> []
                then Some (case Map_get helperMap (fst e) of None \<Rightarrow> fst e | Some parent \<Rightarrow> parent)
                else None)"
proof -
  from assms obtain e es where s: "scores = e # es"
    by (cases scores) auto
  have h: "foldl max (snd e) (Map_values es) = Max (set (Map_values scores))"
    by (simp only: foldl_max_Max s Map_values_def list.map)
  have "autoSelect (Some scores) helperMap =
          (case find (\<lambda>(k, sc). sc = foldl max (snd e) (Map_values es)) scores of
              None \<Rightarrow> None
            | Some (k, sc) \<Rightarrow>
                if k \<noteq> []
                then Some (case Map_get helperMap k of None \<Rightarrow> k | Some parent \<Rightarrow> parent)
                else None)"
    unfolding autoSelect_def s by (simp only: option.case list.case Let_def)
  then show ?thesis
    unfolding h case_prod_snd by (simp only: case_prod_beta)
qed

lemma scores_of_single:
  "scores_of helperMap [r] = promote helperMap [(id' r, score r)] (id' r) (score r)"
  by (simp add: scores_of_def scores_step_def)

lemma helper_values_inner:
  "set (Map_values m) \<subseteq> S \<Longrightarrow> p \<in> S \<Longrightarrow>
   set (Map_values (foldl (\<lambda>mapping helper. Map_set mapping (DefaultNode.schemaId helper) p) m hs)) \<subseteq> S"
proof (induction hs arbitrary: m)
  case Nil
  then show ?case by simp
next
  case (Cons h hs)
  from Cons.prems Map_values_set [of m "DefaultNode.schemaId h" p]
  have "set (Map_values (Map_set m (DefaultNode.schemaId h) p)) \<subseteq> S"
    by auto
  from Cons.IH [OF this Cons.prems(2)] show ?case by simp
qed

lemma helper_values_outer:
  "set (Map_values m) \<subseteq> S \<Longrightarrow> NodeSchema.schemaId ` set schemata \<subseteq> S \<Longrightarrow>
   set (Map_values
     (foldl (\<lambda>mapping schema.
              foldl (\<lambda>mapping helper.
                       Map_set mapping (DefaultNode.schemaId helper) (NodeSchema.schemaId schema))
                    mapping
                    (case defaultNodes schema of None \<Rightarrow> [] | Some ds \<Rightarrow> ds))
           m schemata)) \<subseteq> S"
proof (induction schemata arbitrary: m)
  case Nil
  then show ?case by simp
next
  case (Cons x xs)
  from Cons.prems have "NodeSchema.schemaId x \<in> S" and rest: "NodeSchema.schemaId ` set xs \<subseteq> S"
    by auto
  from helper_values_inner [OF Cons.prems(1) this(1)]
  have "set (Map_values (foldl (\<lambda>mapping helper.
                       Map_set mapping (DefaultNode.schemaId helper) (NodeSchema.schemaId x))
                    m (case defaultNodes x of None \<Rightarrow> [] | Some ds \<Rightarrow> ds))) \<subseteq> S" .
  from Cons.IH [OF this rest] show ?case by simp
qed

lemma helperNodeMapping_parents:
  "set (Map_values (helperNodeMapping schemata)) \<subseteq> NodeSchema.schemaId ` set schemata"
  unfolding helperNodeMapping_def by (rule helper_values_outer) (simp_all add: Map_values_def)

lemma promote_keys:
  "set (Map_keys (promote helperMap scores i sc)) \<subseteq> set (Map_keys scores) \<union> set (Map_values helperMap)"
  by (auto simp: promote_def Map_keys_set dest: Map_get_values split: option.splits)

lemma scores_step_keys:
  "set (Map_keys (scores_step helperMap scores r)) \<subseteq>
     insert (id' r) (set (Map_keys scores)) \<union> set (Map_values helperMap)"
  using promote_keys [of helperMap "Map_set scores (id' r) (score r)" "id' r" "score r"]
  by (simp add: scores_step_def Map_keys_set)

lemma scores_of_keys:
  "set (Map_keys (scores_of helperMap rs)) \<subseteq> id' ` set rs \<union> set (Map_values helperMap)"
proof (induction rs rule: rev_induct)
  case Nil
  show ?case by (simp add: scores_of_def Map_keys_def)
next
  case (snoc r rs)
  from scores_step_keys [of helperMap "scores_of helperMap rs" r] snoc
  show ?case by (auto simp: scores_of_snoc)
qed

lemma createSearchIndex_ids: "fst ` set (createSearchIndex schemata) = NodeSchema.schemaId ` set schemata"
  by (simp add: createSearchIndex_def idField_def image_image)

lemma map_sum_Cons_append:
  "map_sum id (Cons x) (map_sum id ((@) xs) y) = map_sum id ((@) (x # xs)) y"
  by (cases y) simp_all

lemma tokenize_escaped_char:
  "tokenize ((if isSyntaxCharacter c then [CHR 0x5C, c] else [c]) @ rest) =
     map_sum id (Cons (TChar c)) (tokenize rest)"
  by (auto simp: isSyntaxCharacter_def)

lemma tokenize_escapeRegExp:
  "tokenize (escapeRegExp t @ rest) = map_sum id ((@) (map TChar t)) (tokenize rest)"
proof (induction t)
  case Nil
  show ?case by (cases "tokenize rest") (simp_all add: escapeRegExp_def)
next
  case (Cons c t)
  have "escapeRegExp (c # t) @ rest =
          (if isSyntaxCharacter c then [CHR 0x5C, c] else [c]) @ (escapeRegExp t @ rest)"
    by (simp add: escapeRegExp_def)
  then have "tokenize (escapeRegExp (c # t) @ rest) =
               map_sum id (Cons (TChar c)) (tokenize (escapeRegExp t @ rest))"
    by (simp only: tokenize_escaped_char)
  then show ?case
    by (simp only: Cons.IH map_sum_Cons_append list.map)
qed

lemma tokenize_bar: "tokenize (CHR ''|'' # rest) = map_sum id (Cons TBar) (tokenize rest)"
  by simp

lemma tokenize_join:
  "tokenize (join ''|'' (map escapeRegExp ts) @ rest) =
     map_sum id ((@) (join [TBar] (map (map TChar) ts))) (tokenize rest)"
proof (induction ts)
  case Nil
  show ?case by (cases "tokenize rest") simp_all
next
  case (Cons x ts)
  show ?case
  proof (cases ts)
    case Nil
    then show ?thesis by (simp only: join.simps list.map tokenize_escapeRegExp)
  next
    case (Cons y zs)
    have "tokenize (join ''|'' (map escapeRegExp (x # y # zs)) @ rest) =
            tokenize (escapeRegExp x @ CHR ''|'' # (join ''|'' (map escapeRegExp (y # zs)) @ rest))"
      by simp
    also have "\<dots> = map_sum id ((@) (map TChar x))
                       (map_sum id (Cons TBar) (tokenize (join ''|'' (map escapeRegExp (y # zs)) @ rest)))"
      by (simp only: tokenize_escapeRegExp tokenize_bar)
    also have "\<dots> = map_sum id ((@) (map TChar x))
                       (map_sum id (Cons TBar)
                          (map_sum id ((@) (join [TBar] (map (map TChar) (y # zs)))) (tokenize rest)))"
      using Cons.IH by (simp only: Cons)
    also have "\<dots> = map_sum id ((@) (join [TBar] (map (map TChar) (x # y # zs)))) (tokenize rest)"
      by (cases "tokenize rest") simp_all
    finally show ?thesis by (simp only: Cons)
  qed
qed

lemma parse_chars:
  "parse stack alts cur (map TChar t @ ts) = parse stack alts (cur @ map Lit t) ts"
  by (induction t arbitrary: cur) simp_all

lemma parse_terms:
  "parse ((la, alts', cur') # stack) alts [] (join [TBar] (map (map TChar) ts) @ TClose # rest) =
     parse stack alts'
       (cur' @ [if la then NegLookahead (Alt (alts @ map (\<lambda>t. Seq (map Lit t)) (alternatives ts)))
                else Alt (alts @ map (\<lambda>t. Seq (map Lit t)) (alternatives ts))])
       rest"
proof (induction ts arbitrary: alts)
  case Nil
  show ?case by (simp add: alternatives_def)
next
  case (Cons x ts)
  note IH = Cons.IH
  show ?case
  proof (cases ts)
    case Nil
    then show ?thesis
      using parse_chars [of "(la, alts', cur') # stack" alts "[]" x "TClose # rest"]
      by (simp add: alternatives_def)
  next
    case (Cons y zs)
    have "parse ((la, alts', cur') # stack) alts []
            (join [TBar] (map (map TChar) (x # y # zs)) @ TClose # rest) =
          parse ((la, alts', cur') # stack) alts []
            (map TChar x @ TBar # (join [TBar] (map (map TChar) (y # zs)) @ TClose # rest))"
      by simp
    also have "\<dots> = parse ((la, alts', cur') # stack) (alts @ [Seq (map Lit x)]) []
            (join [TBar] (map (map TChar) (y # zs)) @ TClose # rest)"
      by (simp only: parse_chars parse.simps append_Nil)
    also have "\<dots> = parse stack alts'
       (cur' @ [if la then NegLookahead (Alt ((alts @ [Seq (map Lit x)]) @ map (\<lambda>t. Seq (map Lit t)) (alternatives (y # zs))))
                else Alt ((alts @ [Seq (map Lit x)]) @ map (\<lambda>t. Seq (map Lit t)) (alternatives (y # zs)))])
       rest"
      using IH [of "alts @ [Seq (map Lit x)]"] by (simp only: Cons)
    finally show ?thesis
      by (simp add: Cons alternatives_def)
  qed
qed

lemma tokenize_suffix:
  "tokenize ('')(?!'' @ [CHR 0x5C] @ ''w)'') = Inr [TClose, TNegLookahead, TWord, TClose]"
  by (simp add: isSyntaxCharacter_def)

lemma tokenize_pattern:
  "tokenize (''(?:'' @ join ''|'' (map escapeRegExp ts) @ '')(?!'' @ [CHR 0x5C] @ ''w)'') =
     Inr (TGroup # join [TBar] (map (map TChar) ts) @ [TClose, TNegLookahead, TWord, TClose])"
proof -
  have "tokenize (''(?:'' @ join ''|'' (map escapeRegExp ts) @ '')(?!'' @ [CHR 0x5C] @ ''w)'') =
          map_sum id (Cons TGroup)
            (tokenize (join ''|'' (map escapeRegExp ts) @ ('')(?!'' @ [CHR 0x5C] @ ''w)'')))"
    by simp
  then show ?thesis
    by (simp only: tokenize_join tokenize_suffix) simp
qed

lemma parse_pattern:
  "parse [] [] [] (TGroup # join [TBar] (map (map TChar) ts) @ [TClose, TNegLookahead, TWord, TClose]) =
     Inr (Alt [Seq [Alt (map (\<lambda>t. Seq (map Lit t)) (alternatives ts)),
                    NegLookahead (Alt [Seq [WordChar]])]])"
  using parse_terms [of False "[]" "[]" "[]" "[]" ts "[TNegLookahead, TWord, TClose]"]
  by simp

lemma highlightRegex_Some:
  "highlightRegex (Some ts) =
     Inr (Some \<lparr>source = ''(?:'' @ join ''|'' (map escapeRegExp ts) @ '')(?!'' @ [CHR 0x5C] @ ''w)'',
               ignoreCase = True, global = True,
               pattern = Alt [Seq [Alt (map (\<lambda>t. Seq (map Lit t)) (alternatives ts)),
                                   NegLookahead (Alt [Seq [WordChar]])]]\<rparr>)"
  unfolding highlightRegex_def new_RegExp_ig_def
  by (simp only: tokenize_pattern parse_pattern option.case sum.case map_sum.simps id_apply)

lemma ends_seq_literal:
  "ends_seq ic s (map Lit t) i = (if literal_at ic s i t then [i + length t] else [])"
  by (induction t arbitrary: i) simp_all

lemma ends_alt_literals:
  "ends_alt ic s (map (\<lambda>t. Seq (map Lit t)) ts) i =
     map (\<lambda>t. i + length t) (filter (literal_at ic s i) ts)"
  by (induction ts) (simp_all add: ends_seq_literal)

lemma concat_map_filter: "concat (map (\<lambda>j. if P j then [] else [j]) js) = filter (\<lambda>j. \<not> P j) js"
  by (induction js) simp_all

lemma ends_seq_not_word:
  "ends_seq ic s [NegLookahead (Alt [Seq [WordChar]])] =
     (\<lambda>j. if j < length s \<and> isWordChar (s ! j) then [] else [j])"
  by (rule ext) simp

lemma ends_highlight:
  "ends ic s (Alt [Seq [Alt (map (\<lambda>t. Seq (map Lit t)) ts), NegLookahead (Alt [Seq [WordChar]])]]) i =
     filter (\<lambda>j. \<not> (j < length s \<and> isWordChar (s ! j)))
       (map (\<lambda>t. i + length t) (filter (literal_at ic s i) ts))"
proof -
  have "ends ic s (Alt [Seq [Alt (map (\<lambda>t. Seq (map Lit t)) ts), NegLookahead (Alt [Seq [WordChar]])]]) i =
          concat (map (\<lambda>j. if j < length s \<and> isWordChar (s ! j) then [] else [j])
                      (ends_alt ic s (map (\<lambda>t. Seq (map Lit t)) ts) i))"
    by (simp add: ends_seq_not_word del: ends.simps(2,5))
  then show ?thesis
    by (simp only: concat_map_filter ends_alt_literals)
qed

section \<open>Claims\<close>

text \<open>
  C1. When the results of a search hold a helper and its parent, each once, the final
  score map gives the parent the score of the parent's own result, whatever the order
  of the two results; and the promotion step changes nothing when the parent of the
  helper has a score entry already. The results of the index carry one entry per
  identifier.
\<close>

theorem parent_keeps_own_score:
  assumes "trim searchQuery \<noteq> []"
    and "distinct (map id' (search searchQuery))"
    and "helper \<in> set (search searchQuery)"
    and "parent \<in> set (search searchQuery)"
    and "Map_get helperMap (id' helper) = Some (id' parent)"
  shows "(\<exists>scores. searchScores (useSearch search helperMap searchQuery) = Some scores \<and>
            Map_get scores (id' parent) = Some (score parent)) \<and>
         (\<forall>scores sc. Map_has scores (id' parent) \<longrightarrow>
            promote helperMap scores (id' helper) sc = scores)"
proof -
  have "searchScores (useSearch search helperMap searchQuery) =
          Some (scores_of helperMap (search searchQuery))"
    using assms(1) by (simp add: useSearch_def Let_def)
  moreover have "Map_get (scores_of helperMap (search searchQuery)) (id' parent) = Some (score parent)"
    using assms(2,4) by (rule scores_of_own)
  moreover have "\<forall>scores sc. Map_has scores (id' parent) \<longrightarrow>
            promote helperMap scores (id' helper) sc = scores"
    using assms(5) by (simp add: promote_def)
  ultimately show ?thesis by blast
qed

theorem parent_keeps_own_score_witness:
  "(\<exists>scores.
      searchScores
        (useSearch
           (\<lambda>q. [\<lparr>id' = ''h'', score = 1, terms = [''blur'']\<rparr>,
                 \<lparr>id' = ''p'', score = 2, terms = [''blur'']\<rparr>])
           [(''h'', ''p'')] ''blur'') = Some scores \<and>
      Map_get scores ''p'' = Some 2) \<and>
   (\<exists>scores.
      searchScores
        (useSearch
           (\<lambda>q. [\<lparr>id' = ''p'', score = 2, terms = [''blur'']\<rparr>,
                 \<lparr>id' = ''h'', score = 1, terms = [''blur'']\<rparr>])
           [(''h'', ''p'')] ''blur'') = Some scores \<and>
      Map_get scores ''p'' = Some 2)"
  using
    parent_keeps_own_score [of "''blur''"
      "\<lambda>q. [\<lparr>id' = ''h'', score = 1, terms = [''blur'']\<rparr>,
            \<lparr>id' = ''p'', score = 2, terms = [''blur'']\<rparr>]"
      "\<lparr>id' = ''h'', score = 1, terms = [''blur'']\<rparr>"
      "\<lparr>id' = ''p'', score = 2, terms = [''blur'']\<rparr>" "[(''h'', ''p'')]"]
    parent_keeps_own_score [of "''blur''"
      "\<lambda>q. [\<lparr>id' = ''p'', score = 2, terms = [''blur'']\<rparr>,
            \<lparr>id' = ''h'', score = 1, terms = [''blur'']\<rparr>]"
      "\<lparr>id' = ''h'', score = 1, terms = [''blur'']\<rparr>"
      "\<lparr>id' = ''p'', score = 2, terms = [''blur'']\<rparr>" "[(''h'', ''p'')]"]
  by (simp add: trim_def isWhiteSpace_def)

text \<open>
  C2. When the one result of a search is a helper, and neither the helper's identifier nor
  its parent's is the empty string, the score map holds the helper and the parent with
  the same score, and the effect calls \<^verbatim>\<open>openNodeDocumentation\<close> with the parent. The
  conditions \<^verbatim>\<open>parent && ...\<close> and \<^verbatim>\<open>if (highestScoreSchemaId)\<close> are false for the empty
  string, so both identifiers have to be non-empty: with the empty string for a parent
  the parent gets no entry, and with the empty string for the helper nothing is selected.
\<close>

theorem helper_only_match:
  assumes "trim searchQuery \<noteq> []" and "search searchQuery = [r]"
    and "Map_get helperMap (id' r) = Some parent"
    and "id' r \<noteq> []" and "parent \<noteq> []"
  shows "\<exists>scores. searchScores (useSearch search helperMap searchQuery) = Some scores \<and>
           Map_get scores (id' r) = Some (score r) \<and>
           Map_get scores parent = Some (score r) \<and>
           autoSelect (Some scores) helperMap = Some parent \<and>
           autoSelect_effect openNodeDocumentation (Some scores) helperMap st =
             openNodeDocumentation parent st"
proof -
  let ?scores = "scores_of helperMap [r]"
  have s: "searchScores (useSearch search helperMap searchQuery) = Some ?scores"
    using assms(1,2) by (simp add: useSearch_def Let_def)
  have cases: "?scores = [(id' r, score r)] \<or> ?scores = [(id' r, score r), (parent, score r)]"
    using assms(3) by (simp add: scores_of_single promote_def Map_has_def)
  have own: "Map_get ?scores (id' r) = Some (score r)"
    using cases by auto
  have par: "Map_get ?scores parent = Some (score r)"
    using assms(3,5) by (simp add: scores_of_single promote_def Map_has_def)
  have sel: "autoSelect (Some ?scores) helperMap = Some parent"
    using cases assms(3,4) by (auto simp: autoSelect_def Map_values_def)
  have eff: "autoSelect_effect openNodeDocumentation (Some ?scores) helperMap st =
             openNodeDocumentation parent st"
    unfolding autoSelect_effect_def sel by simp
  from s own par sel eff show ?thesis by blast
qed

theorem helper_only_match_witness:
  "\<exists>scores.
     searchScores
       (useSearch (\<lambda>q. [\<lparr>id' = ''h'', score = 3, terms = [''pad'']\<rparr>]) [(''h'', ''p'')] ''pad'') =
       Some scores \<and>
     Map_get scores ''h'' = Some 3 \<and> Map_get scores ''p'' = Some 3 \<and>
     autoSelect (Some scores) [(''h'', ''p'')] = Some ''p'' \<and>
     autoSelect_effect (\<lambda>i st. i) (Some scores) [(''h'', ''p'')] ''x'' = ''p''"
  using helper_only_match [of "''pad''" "\<lambda>q. [\<lparr>id' = ''h'', score = 3, terms = [''pad'']\<rparr>]"
      "\<lparr>id' = ''h'', score = 3, terms = [''pad'']\<rparr>" "[(''h'', ''p'')]" "''p''" "\<lambda>i st. i" "''x''"]
  by (simp add: trim_def isWhiteSpace_def)

theorem helper_only_match_counterexample:
  "Map_get
     (helperNodeMapping
        [\<lparr>schemaId = [], name = ''Iterator'', category = ''image'', subcategory = ''batch'',
          description = ''Iterates.'', inputs = [], outputs = [],
          defaultNodes = Some [\<lparr>DefaultNode.schemaId = ''h''\<rparr>]\<rparr>]) ''h'' = Some [] \<and>
   \<not> Map_has
     (scores_of
        (helperNodeMapping
           [\<lparr>schemaId = [], name = ''Iterator'', category = ''image'', subcategory = ''batch'',
             description = ''Iterates.'', inputs = [], outputs = [],
             defaultNodes = Some [\<lparr>DefaultNode.schemaId = ''h''\<rparr>]\<rparr>])
        [\<lparr>id' = ''h'', score = 3, terms = [''pad'']\<rparr>]) [] \<and>
   Map_get [([], ''p'')] [] = Some ''p'' \<and>
   autoSelect
     (Some (scores_of [([], ''p'')] [\<lparr>id' = [], score = 3, terms = [''pad'']\<rparr>]))
     [([], ''p'')] = None"
  by (simp add: helperNodeMapping_def scores_of_def scores_step_def promote_def Map_has_def
        autoSelect_def Map_values_def)

text \<open>
  C3. For a query of white space only (the empty query with them) the search returns
  neither scores nor terms, the effect does not call \<^verbatim>\<open>openNodeDocumentation\<close> and leaves
  the state as it is, and there is no highlight pattern.
\<close>

theorem blank_query_inactive:
  assumes "\<forall>c\<in>set searchQuery. isWhiteSpace c"
  shows "useSearch search helperMap searchQuery = \<lparr>searchScores = None, searchTerms = None\<rparr> \<and>
         autoSelect (searchScores (useSearch search helperMap searchQuery)) helperMap = None \<and>
         autoSelect_effect openNodeDocumentation
           (searchScores (useSearch search helperMap searchQuery)) helperMap st = st \<and>
         highlightRegex (searchTerms (useSearch search helperMap searchQuery)) = Inr None"
proof -
  from assms have "trim searchQuery = []"
    by (simp only: trim_empty_iff)
  then have u: "useSearch search helperMap searchQuery = \<lparr>searchScores = None, searchTerms = None\<rparr>"
    by (simp add: useSearch_def)
  show ?thesis
    unfolding u by (simp add: autoSelect_def autoSelect_effect_def highlightRegex_def)
qed

theorem blank_query_inactive_witness:
  "useSearch (\<lambda>q. [\<lparr>id' = ''a'', score = 1, terms = [''x'']\<rparr>]) [] [CHR 0x20, CHR 0x09, CHR 0x0A] =
     \<lparr>searchScores = None, searchTerms = None\<rparr> \<and>
   autoSelect
     (searchScores (useSearch (\<lambda>q. [\<lparr>id' = ''a'', score = 1, terms = [''x'']\<rparr>]) []
        [CHR 0x20, CHR 0x09, CHR 0x0A])) [] = None \<and>
   autoSelect_effect (\<lambda>i st. i)
     (searchScores (useSearch (\<lambda>q. [\<lparr>id' = ''a'', score = 1, terms = [''x'']\<rparr>]) []
        [CHR 0x20, CHR 0x09, CHR 0x0A])) [] ''chainner:image:blur'' = ''chainner:image:blur'' \<and>
   highlightRegex
     (searchTerms (useSearch (\<lambda>q. [\<lparr>id' = ''a'', score = 1, terms = [''x'']\<rparr>]) []
        [CHR 0x20, CHR 0x09, CHR 0x0A])) = Inr None"
  by (rule blank_query_inactive) (simp add: isWhiteSpace_def)

text \<open>
  C4. On a score map that is not empty, the effect takes the highest score and the first
  entry, in iteration order, that has it. If the identifier of that entry is not the
  empty string, the effect calls \<^verbatim>\<open>openNodeDocumentation\<close> once, with the parent of the
  identifier when it is a helper and with the identifier itself otherwise; if it is the
  empty string, \<^verbatim>\<open>if (highestScoreSchemaId)\<close> is false and the effect calls nothing. For
  the scores A: 0.9, B: 0.9, C: 0.5, in this order, with A no helper, it is called
  with A.
\<close>

theorem autoSelect_first_highest:
  assumes "scores \<noteq> []"
  shows "(\<exists>i<length scores.
           snd (scores ! i) = Max (set (Map_values scores)) \<and>
           (\<forall>j<i. snd (scores ! j) \<noteq> Max (set (Map_values scores))) \<and>
           autoSelect (Some scores) helperMap =
             (if fst (scores ! i) = [] then None
              else Some (case Map_get helperMap (fst (scores ! i)) of
                           None \<Rightarrow> fst (scores ! i)
                         | Some parent \<Rightarrow> parent)) \<and>
           autoSelect_effect openNodeDocumentation (Some scores) helperMap st =
             (if fst (scores ! i) = [] then st
              else openNodeDocumentation
                     (case Map_get helperMap (fst (scores ! i)) of
                        None \<Rightarrow> fst (scores ! i)
                      | Some parent \<Rightarrow> parent) st)) \<and>
         (Map_get helperMap ''A'' = None \<longrightarrow>
            autoSelect (Some [(''A'', 0.9), (''B'', 0.9), (''C'', 0.5)]) helperMap = Some ''A'')"
proof -
  from find_highest [OF assms] obtain i where i: "i < length scores"
    and f: "find (\<lambda>e. snd e = Max (set (Map_values scores))) scores = Some (scores ! i)"
    and m: "snd (scores ! i) = Max (set (Map_values scores))"
    and l: "\<forall>j<i. snd (scores ! j) \<noteq> Max (set (Map_values scores))"
    by blast
  have a: "autoSelect (Some scores) helperMap =
             (if fst (scores ! i) = [] then None
              else Some (case Map_get helperMap (fst (scores ! i)) of
                           None \<Rightarrow> fst (scores ! i)
                         | Some parent \<Rightarrow> parent))"
    unfolding autoSelect_Some [OF assms] f by simp
  have b: "autoSelect_effect openNodeDocumentation (Some scores) helperMap st =
             (if fst (scores ! i) = [] then st
              else openNodeDocumentation
                     (case Map_get helperMap (fst (scores ! i)) of
                        None \<Rightarrow> fst (scores ! i)
                      | Some parent \<Rightarrow> parent) st)"
    unfolding autoSelect_effect_def a by simp
  have c: "Map_get helperMap ''A'' = None \<longrightarrow>
            autoSelect (Some [(''A'', 0.9), (''B'', 0.9), (''C'', 0.5)]) helperMap = Some ''A''"
    by (simp add: autoSelect_def Map_values_def)
  from i m l a b have "\<exists>i<length scores.
           snd (scores ! i) = Max (set (Map_values scores)) \<and>
           (\<forall>j<i. snd (scores ! j) \<noteq> Max (set (Map_values scores))) \<and>
           autoSelect (Some scores) helperMap =
             (if fst (scores ! i) = [] then None
              else Some (case Map_get helperMap (fst (scores ! i)) of
                           None \<Rightarrow> fst (scores ! i)
                         | Some parent \<Rightarrow> parent)) \<and>
           autoSelect_effect openNodeDocumentation (Some scores) helperMap st =
             (if fst (scores ! i) = [] then st
              else openNodeDocumentation
                     (case Map_get helperMap (fst (scores ! i)) of
                        None \<Rightarrow> fst (scores ! i)
                      | Some parent \<Rightarrow> parent) st)"
    by blast
  then show ?thesis using c by (rule conjI)
qed

theorem autoSelect_first_highest_witness:
  "autoSelect (Some [(''B'', 0.5), (''h'', 0.9), (''A'', 0.9)]) [(''h'', ''p'')] = Some ''p''"
proof -
  let ?xs = "[(''B'', 0.5), (''h'', 0.9), (''A'', 0.9)] :: (SchemaId, real) Map"
  let ?hm = "[(''h'', ''p'')] :: (SchemaId, SchemaId) Map"
  have ne: "?xs \<noteq> []" by simp
  have M: "Max (set (Map_values ?xs)) = 0.9"
    by (simp add: Map_values_def)
  from autoSelect_first_highest [OF ne, of ?hm "\<lambda>i st. i" "[]"] obtain i
    where i: "i < length ?xs"
      and m: "snd (?xs ! i) = Max (set (Map_values ?xs))"
      and l: "\<forall>j<i. snd (?xs ! j) \<noteq> Max (set (Map_values ?xs))"
      and a: "autoSelect (Some ?xs) ?hm =
             (if fst (?xs ! i) = [] then None
              else Some (case Map_get ?hm (fst (?xs ! i)) of
                           None \<Rightarrow> fst (?xs ! i)
                         | Some parent \<Rightarrow> parent))"
    by blast
  from i have "i = 0 \<or> i = 1 \<or> i = 2"
    by (simp add: less_Suc_eq) arith
  moreover have "i \<noteq> 0"
  proof
    assume "i = 0"
    with m have "snd (?xs ! 0) = Max (set (Map_values ?xs))" by simp
    then show False unfolding M by simp
  qed
  moreover have "i \<noteq> 2"
  proof
    assume "i = 2"
    with l have "\<forall>j<2. snd (?xs ! j) \<noteq> Max (set (Map_values ?xs))" by simp
    then have "snd (?xs ! 1) \<noteq> Max (set (Map_values ?xs))" by (rule allE [of _ 1]) simp
    then show False unfolding M by simp
  qed
  ultimately have "i = 1" by blast
  with a show ?thesis by simp
qed

theorem autoSelect_first_highest_counterexample:
  "scores_of [] [\<lparr>id' = [], score = 1, terms = [''blur'']\<rparr>] = [([], 1)] \<and>
   autoSelect (Some [([], 1)]) [] = None \<and>
   autoSelect_effect (\<lambda>i st. i) (Some [([], 1)]) [] ''chainner:image:blur'' = ''chainner:image:blur''"
  by (simp add: scores_of_def scores_step_def promote_def autoSelect_def autoSelect_effect_def
        Map_values_def)

text \<open>
  C5. For every term set, the constructor accepts the pattern that the memo writes, and
  the expression has the flags \<^verbatim>\<open>i\<close> and \<^verbatim>\<open>g\<close>. A match of it that starts at position \<open>i\<close>
  ends at \<open>j\<close> exactly when one of the alternatives stands at \<open>i\<close>, character for
  character and up to letter case, ends at \<open>j\<close>, and no word character stands at \<open>j\<close>. The
  alternatives are the terms; the empty term set gives the one empty alternative. For
  the term set of \<^verbatim>\<open>blur\<close>, the expression matches in \<^verbatim>\<open>blur\<close> and in \<^verbatim>\<open>blur.\<close>, both from 0
  to 4, and nowhere in \<^verbatim>\<open>blurry\<close>.
\<close>

theorem highlight_pattern_matches_terms:
  "(\<exists>re. highlightRegex (Some ts) = Inr (Some re) \<and>
      source re = ''(?:'' @ join ''|'' (map escapeRegExp ts) @ '')(?!'' @ [CHR 0x5C] @ ''w)'' \<and>
      ignoreCase re \<and> global re \<and>
      (\<forall>s i j. j \<in> set (ends (ignoreCase re) s (pattern re) i) \<longleftrightarrow>
         (\<exists>t\<in>set (alternatives ts). literal_at True s i t \<and> j = i + length t) \<and>
         \<not> (j < length s \<and> isWordChar (s ! j)))) \<and>
   (\<exists>re. highlightRegex (Some [''blur'']) = Inr (Some re) \<and>
      exec re ''blur'' = Some (0, 4) \<and> exec re ''blur.'' = Some (0, 4) \<and>
      exec re ''blurry'' = None)"
proof (rule conjI)
  let ?re = "\<lparr>source = ''(?:'' @ join ''|'' (map escapeRegExp ts) @ '')(?!'' @ [CHR 0x5C] @ ''w)'',
               ignoreCase = True, global = True,
               pattern = Alt [Seq [Alt (map (\<lambda>t. Seq (map Lit t)) (alternatives ts)),
                                   NegLookahead (Alt [Seq [WordChar]])]]\<rparr>"
  have "\<forall>s i j. j \<in> set (ends (ignoreCase ?re) s (pattern ?re) i) \<longleftrightarrow>
         (\<exists>t\<in>set (alternatives ts). literal_at True s i t \<and> j = i + length t) \<and>
         \<not> (j < length s \<and> isWordChar (s ! j))"
    by (simp only: RegExp.select_convs ends_highlight) auto
  then show "\<exists>re. highlightRegex (Some ts) = Inr (Some re) \<and>
      source re = ''(?:'' @ join ''|'' (map escapeRegExp ts) @ '')(?!'' @ [CHR 0x5C] @ ''w)'' \<and>
      ignoreCase re \<and> global re \<and>
      (\<forall>s i j. j \<in> set (ends (ignoreCase re) s (pattern re) i) \<longleftrightarrow>
         (\<exists>t\<in>set (alternatives ts). literal_at True s i t \<and> j = i + length t) \<and>
         \<not> (j < length s \<and> isWordChar (s ! j)))"
    by (intro exI [of _ ?re]) (simp add: highlightRegex_Some)
next
  show "\<exists>re. highlightRegex (Some [''blur'']) = Inr (Some re) \<and>
      exec re ''blur'' = Some (0, 4) \<and> exec re ''blur.'' = Some (0, 4) \<and>
      exec re ''blurry'' = None"
    by (simp add: highlightRegex_Some alternatives_def exec_def match_at_def
          Canonicalize_def isWordChar_def)
qed

theorem highlight_pattern_matches_terms_witness:
  "\<exists>re. highlightRegex (Some [''a.b'', ''blur'']) = Inr (Some re) \<and>
      4 \<in> set (ends (ignoreCase re) ''BLUR.'' (pattern re) 0) \<and>
      4 \<notin> set (ends (ignoreCase re) ''blurry'' (pattern re) 0) \<and>
      3 \<in> set (ends (ignoreCase re) ''a.b'' (pattern re) 0) \<and>
      3 \<notin> set (ends (ignoreCase re) ''axb'' (pattern re) 0)"
  using highlight_pattern_matches_terms [of "[''a.b'', ''blur'']"]
  by (auto simp: alternatives_def Canonicalize_def isWordChar_def)

text \<open>
  C6. The text that the index gets for \<^verbatim>\<open>inputs\<close> and for \<^verbatim>\<open>outputs\<close> joins, with blank
  lines between the entries, the label of each entry, one space, and the description of
  the entry (nothing, when the entry has none). The other fields are indexed as they
  are. The space between label and description is what the text in the words of the
  specification lacks.
\<close>

theorem indexed_text:
  "createSearchIndex schemata =
     map (\<lambda>document.
            (NodeSchema.schemaId document,
             [(F_category, category document),
              (F_description, NodeSchema.description document),
              (F_name, name document),
              (F_subcategory, subcategory document),
              (F_inputs,
               join [CHR 0x0A, CHR 0x0A]
                 (map (\<lambda>i. label i @ '' '' @ (case Input.description i of None \<Rightarrow> [] | Some d \<Rightarrow> d))
                      (inputs document))),
              (F_outputs,
               join [CHR 0x0A, CHR 0x0A]
                 (map (\<lambda>i. label i @ '' '' @ (case Input.description i of None \<Rightarrow> [] | Some d \<Rightarrow> d))
                      (outputs document)))]))
         schemata"
proof -
  have "input_text = (\<lambda>i. label i @ '' '' @ (case Input.description i of None \<Rightarrow> [] | Some d \<Rightarrow> d))"
    by (rule ext) (simp add: input_text_def)
  then show ?thesis
    by (simp add: createSearchIndex_def fields'_def idField_def)
qed

theorem indexed_text_counterexample:
  "extractField
     \<lparr>schemaId = ''chainner:image:blur'', name = ''Blur'', category = ''image'',
      subcategory = ''filter'', description = ''Blurs an image.'',
      inputs = [\<lparr>label = ''Image'', description = Some ''The image.''\<rparr>],
      outputs = [], defaultNodes = None\<rparr> F_inputs
   \<noteq> spec_indexed_text [\<lparr>label = ''Image'', description = Some ''The image.''\<rparr>]"
  by (simp add: spec_indexed_text_def spec_entry_text_def input_text_def)

text \<open>
  C7. When the results of the index carry identifiers of the collection that the index
  was built over, every key of the score map is the identifier of a schema of the
  collection: a key is the identifier of a result or a parent in the helper map, and the
  helper map of the collection holds identifiers of its schemas as parents.
\<close>

theorem score_keys_in_collection:
  assumes "id' ` set (search searchQuery) \<subseteq> fst ` set (createSearchIndex schemata)"
    and "searchScores (useSearch search (helperNodeMapping schemata) searchQuery) = Some scores"
  shows "set (Map_keys scores) \<subseteq> NodeSchema.schemaId ` set schemata"
proof -
  from assms(2) have "scores = scores_of (helperNodeMapping schemata) (search searchQuery)"
    by (auto simp: useSearch_def Let_def split: if_splits)
  moreover note scores_of_keys [of "helperNodeMapping schemata" "search searchQuery"]
  moreover note helperNodeMapping_parents [of schemata]
  moreover from assms(1) have "id' ` set (search searchQuery) \<subseteq> NodeSchema.schemaId ` set schemata"
    by (simp only: createSearchIndex_ids)
  ultimately show ?thesis
    by blast
qed

theorem score_keys_in_collection_witness:
  "set (Map_keys
     (scores_of
        (helperNodeMapping
           [\<lparr>schemaId = ''p'', name = ''Iterator'', category = ''image'', subcategory = ''batch'',
             description = ''Iterates.'', inputs = [], outputs = [],
             defaultNodes = Some [\<lparr>DefaultNode.schemaId = ''h''\<rparr>]\<rparr>,
            \<lparr>schemaId = ''h'', name = ''Load'', category = ''image'', subcategory = ''batch'',
             description = ''Loads.'', inputs = [], outputs = [], defaultNodes = None\<rparr>])
        [\<lparr>id' = ''h'', score = 3, terms = [''load'']\<rparr>]))
   \<subseteq> {''p'', ''h''}"
  using score_keys_in_collection [of "\<lambda>q. [\<lparr>id' = ''h'', score = 3, terms = [''load'']\<rparr>]" "''load''"
      "[\<lparr>schemaId = ''p'', name = ''Iterator'', category = ''image'', subcategory = ''batch'',
             description = ''Iterates.'', inputs = [], outputs = [],
             defaultNodes = Some [\<lparr>DefaultNode.schemaId = ''h''\<rparr>]\<rparr>,
            \<lparr>schemaId = ''h'', name = ''Load'', category = ''image'', subcategory = ''batch'',
             description = ''Loads.'', inputs = [], outputs = [], defaultNodes = None\<rparr>]"
      "scores_of
        (helperNodeMapping
           [\<lparr>schemaId = ''p'', name = ''Iterator'', category = ''image'', subcategory = ''batch'',
             description = ''Iterates.'', inputs = [], outputs = [],
             defaultNodes = Some [\<lparr>DefaultNode.schemaId = ''h''\<rparr>]\<rparr>,
            \<lparr>schemaId = ''h'', name = ''Load'', category = ''image'', subcategory = ''batch'',
             description = ''Loads.'', inputs = [], outputs = [], defaultNodes = None\<rparr>])
        [\<lparr>id' = ''h'', score = 3, terms = [''load'']\<rparr>]"]
  by (simp add: useSearch_def Let_def trim_def isWhiteSpace_def createSearchIndex_def idField_def)

text \<open>
  C8. In an active search the term set holds exactly the matched terms of all results in
  lower case, each once: a string is in the set if and only if it is the lower case of a
  matched term of some result, no element has a capital letter, and when the matched
  terms are in lower case already, the set holds exactly them.
\<close>

theorem terms_lowercased_deduplicated:
  assumes "trim searchQuery \<noteq> []"
  shows "\<exists>ts. searchTerms (useSearch search helperMap searchQuery) = Some ts \<and>
           set ts = toLowerCase ` (\<Union>r\<in>set (search searchQuery). set (terms r)) \<and>
           distinct ts \<and>
           (\<forall>t. t \<in> set ts \<longleftrightarrow>
              (\<exists>r\<in>set (search searchQuery). \<exists>u\<in>set (terms r). t = toLowerCase u)) \<and>
           (\<forall>t\<in>set ts. toLowerCase t = t \<and> (\<forall>c\<in>set t. \<not> isUpperCase c)) \<and>
           ((\<forall>r\<in>set (search searchQuery). \<forall>u\<in>set (terms r). toLowerCase u = u) \<longrightarrow>
              set ts = (\<Union>r\<in>set (search searchQuery). set (terms r)))"
proof -
  let ?ts = "terms_of (search searchQuery)"
  have "searchTerms (useSearch search helperMap searchQuery) = Some ?ts"
    using assms by (simp add: useSearch_def Let_def)
  moreover have s: "set ?ts = toLowerCase ` (\<Union>r\<in>set (search searchQuery). set (terms r))"
    by (simp add: terms_of_def set_new_Set)
  moreover have "distinct ?ts"
    by (simp add: terms_of_def distinct_new_Set)
  moreover have "\<forall>t. t \<in> set ?ts \<longleftrightarrow>
              (\<exists>r\<in>set (search searchQuery). \<exists>u\<in>set (terms r). t = toLowerCase u)"
    unfolding s by blast
  moreover have "\<forall>t\<in>set ?ts. toLowerCase t = t \<and> (\<forall>c\<in>set t. \<not> isUpperCase c)"
    by (auto simp: terms_of_def set_new_Set toLowerCase_idem dest: toLowerCase_no_upper)
  moreover have "(\<forall>r\<in>set (search searchQuery). \<forall>u\<in>set (terms r). toLowerCase u = u) \<longrightarrow>
              set ?ts = (\<Union>r\<in>set (search searchQuery). set (terms r))"
    unfolding s by force
  ultimately show ?thesis by blast
qed

theorem terms_lowercased_deduplicated_witness:
  "\<exists>ts. searchTerms
          (useSearch (\<lambda>q. [\<lparr>id' = ''a'', score = 1, terms = [''Blur'', ''blur'']\<rparr>,
                             \<lparr>id' = ''b'', score = 1, terms = [''BLURRY'']\<rparr>]) [] ''blur'') = Some ts \<and>
        set ts = {''blur'', ''blurry''} \<and> distinct ts"
proof -
  let ?search = "\<lambda>q :: string. [\<lparr>id' = ''a'', score = 1, terms = [''Blur'', ''blur'']\<rparr>,
                             \<lparr>id' = ''b'', score = 1, terms = [''BLURRY'']\<rparr>]"
  have t: "trim ''blur'' \<noteq> []"
    by code_simp
  have a: "toLowerCase ''Blur'' = ''blur''" and b: "toLowerCase ''blur'' = ''blur''"
    and c: "toLowerCase ''BLURRY'' = ''blurry''"
    by code_simp+
  have l: "toLowerCase ` (\<Union>r\<in>set (?search ''blur''). set (terms r)) = {''blur'', ''blurry''}"
    by (auto simp: a b c)
  from terms_lowercased_deduplicated [OF t, of ?search "[]"] obtain ts
    where "searchTerms (useSearch ?search [] ''blur'') = Some ts"
      and "set ts = toLowerCase ` (\<Union>r\<in>set (?search ''blur''). set (terms r))"
      and "distinct ts"
    by (elim exE conjE) (rule that)
  then show ?thesis
    unfolding l by blast
qed

text \<open>
  C9. On an empty score map the effect does not call \<^verbatim>\<open>openNodeDocumentation\<close>, and the
  state, with the selected identifier in it, stays as it is.
\<close>

theorem autoSelect_empty_no_action:
  "autoSelect (Some []) helperMap = None \<and>
   autoSelect_effect openNodeDocumentation (Some []) helperMap st = st"
  by (simp add: autoSelect_def autoSelect_effect_def)

text \<open>
  C10. A query that is not white space only and has no result gives the empty score map
  and the empty term set, not absent ones; the memo of the highlight pattern then
  compiles the pattern \<^verbatim>\<open>(?:)(?!\w)\<close>, with the flag \<^verbatim>\<open>i\<close>, whose match at a position is
  the empty string when no word character stands there, and no match otherwise; in the
  inactive case the memo gives no pattern.
\<close>

theorem no_match_degenerate_pattern:
  assumes "\<exists>c\<in>set searchQuery. \<not> isWhiteSpace c" and "search searchQuery = []"
  shows "useSearch search helperMap searchQuery = \<lparr>searchScores = Some [], searchTerms = Some []\<rparr> \<and>
         (\<exists>re. highlightRegex (searchTerms (useSearch search helperMap searchQuery)) = Inr (Some re) \<and>
            source re = ''(?:)(?!'' @ [CHR 0x5C] @ ''w)'' \<and> ignoreCase re \<and>
            (\<forall>s i. match_at re s i = (if i < length s \<and> isWordChar (s ! i) then None else Some i))) \<and>
         highlightRegex None = Inr None"
proof -
  from assms(1) have "trim searchQuery \<noteq> []"
    by (simp only: trim_empty_iff) blast
  with assms(2) have u: "useSearch search helperMap searchQuery = \<lparr>searchScores = Some [], searchTerms = Some []\<rparr>"
    by (simp add: useSearch_def scores_of_def terms_of_def new_Set_def)
  have "highlightRegex None = Inr None"
    by (simp add: highlightRegex_def)
  then show ?thesis
    unfolding u
    by (simp add: highlightRegex_Some alternatives_def match_at_def)
qed

theorem no_match_degenerate_pattern_witness:
  "useSearch (\<lambda>q. []) [(''h'', ''p'')] ''zzz'' = \<lparr>searchScores = Some [], searchTerms = Some []\<rparr> \<and>
   (\<exists>re. highlightRegex (searchTerms (useSearch (\<lambda>q. []) [(''h'', ''p'')] ''zzz'')) = Inr (Some re) \<and>
      source re = ''(?:)(?!'' @ [CHR 0x5C] @ ''w)'' \<and> ignoreCase re \<and>
      (\<forall>s i. match_at re s i = (if i < length s \<and> isWordChar (s ! i) then None else Some i))) \<and>
   highlightRegex None = Inr None"
  by (rule no_match_degenerate_pattern) (simp_all add: isWhiteSpace_def)

end
